theory Spec2Isabelle
  imports Main
begin

section \<open>The IR the two hooks read\<close>

text \<open>
  \<^verbatim>\<open>LinalgTransformOps.cpp\<close> holds two hooks of the Linalg Transform dialect:
  \<^verbatim>\<open>ScopeOp::getSuccessorRegions\<close> and the verifier \<^verbatim>\<open>verifySequenceOp\<close>. Both are
  clients of the host IR library. The part of that library they touch is embedded here:
  operations with results and nested regions, use lists of values, locations, the
  diagnostic engine and the generic operation walker.

  An \<^verbatim>\<open>Operation *\<close> is an identifier; what the pointer leads to (the location of the
  operation, the use list of each value) lives in a store, so that a use whose owner is
  outside the walked operation can still be followed.
\<close>

type_synonym OpId = nat
type_synonym BlockId = nat
type_synonym Location = string

datatype OpResult = OpResult (getDefiningOp: OpId) (getResultNumber: nat)

datatype Value = Result OpResult | BlockArgument BlockId nat

text \<open>
  A use: the operand slot \<open>getOperandNumber\<close> of the operation \<open>getOwner\<close>. Result and
  operand numbers are \<^verbatim>\<open>unsigned\<close> in the source; nothing is computed with them, they are
  only printed, so they are natural numbers here.
\<close>

datatype OpOperand = OpOperand (getOwner: OpId) (getOperandNumber: nat)

text \<open>
  The operation tree: an operation owns regions, a region owns blocks, a block owns its
  arguments and an ordered list of operations.
\<close>

datatype Operation = Operation (getId: OpId) (getNumResults: nat) (getRegions: "Region list")
  and Region = Region (getBlocks: "Block list")
  and Block = Block (getBlockId: BlockId) (getNumArguments: nat) (getOperations: "Operation list")

definition getResults :: "Operation \<Rightarrow> OpResult list" where
  "getResults op = map (OpResult (getId op)) [0..<getNumResults op]"

datatype DiagnosticSeverity = Note | Warning | Error | Remark

datatype Diagnostic =
  Diagnostic (getSeverity: DiagnosticSeverity) (getLocation: Location) (str: string)
    (getNotes: "Diagnostic list")

text \<open>
  The mutable state the verifier runs against: the use list of every value of the program
  (in the order in which \<^verbatim>\<open>getUses()\<close> iterates it), the location of every operation, and
  the diagnostics reported so far. Two settings of the host context belong to it as
  well: whether an error emitted on an operation carries a note with the operation
  printed (\<^verbatim>\<open>shouldPrintOpOnDiagnostic()\<close>, on unless the context is told otherwise), and
  the text the host prints for each operation, which is a parameter here.
\<close>

record IRState =
  useLists :: "Value \<Rightarrow> OpOperand list"
  locations :: "OpId \<Rightarrow> Location"
  diagnostics :: "Diagnostic list"
  printOpOnDiagnostic :: bool
  opText :: "OpId \<Rightarrow> string"

definition getUses :: "IRState \<Rightarrow> OpResult \<Rightarrow> OpOperand list" where
  "getUses c result = useLists c (Result result)"

definition getLoc :: "IRState \<Rightarrow> OpId \<Rightarrow> Location" where
  "getLoc c i = locations c i"

subsection \<open>Diagnostics\<close>

text \<open>
  Streaming an \<^verbatim>\<open>unsigned\<close> into a diagnostic renders it in decimal.
\<close>

fun toString :: "nat \<Rightarrow> string" where
  "toString n =
     (if n < 10 then [''0123456789'' ! n]
      else toString (n div 10) @ [''0123456789'' ! (n mod 10)])"

declare toString.simps [simp del]

text \<open>
  \<^verbatim>\<open>attachNote(loc) << ...\<close> appends a note to a diagnostic.
  \<^verbatim>\<open>child->emitError() << ...\<close> is the member function of the operation: it starts an
  error at the location of the operation and, when the context prints operations on
  diagnostics, attaches a first note of its own, at the same location, that shows the
  operation. The message streamed after the call goes to the error itself, not to that
  note. The in-flight diagnostic is reported to the engine when it goes out of scope.
\<close>

definition attachNote :: "Location \<Rightarrow> string \<Rightarrow> Diagnostic \<Rightarrow> Diagnostic" where
  "attachNote loc message diag =
     Diagnostic (getSeverity diag) (getLocation diag) (str diag)
       (getNotes diag @ [Diagnostic Note loc message []])"

definition emitError :: "IRState \<Rightarrow> Operation \<Rightarrow> string \<Rightarrow> Diagnostic" where
  "emitError c op message =
     (if printOpOnDiagnostic c
      then attachNote (getLoc c (getId op)) (''see current operation: '' @ opText c (getId op))
             (Diagnostic Error (getLoc c (getId op)) message [])
      else Diagnostic Error (getLoc c (getId op)) message [])"

definition report :: "Diagnostic \<Rightarrow> IRState \<Rightarrow> IRState" where
  "report diag c = c\<lparr>diagnostics := diagnostics c @ [diag]\<rparr>"

definition hasNItemsOrLess :: "'a list \<Rightarrow> nat \<Rightarrow> bool" where
  "hasNItemsOrLess items n = (length items \<le> n)"

subsection \<open>The operation walker\<close>

datatype WalkResult = interrupt | advance | skip

datatype WalkOrder = PreOrder | PostOrder

definition wasInterrupted :: "WalkResult \<Rightarrow> bool" where
  "wasInterrupted r = (r = interrupt)"

text \<open>
  The walker visits an operation and every operation nested in its regions, region by
  region, block by block, and stops as soon as the callback interrupts. The callback
  receives the state and returns it, so a callback that changes the IR is expressible.
  The host library walks in post-order unless told otherwise; the order is a parameter
  here, and nothing below depends on which one is taken.
\<close>

fun walk :: "WalkOrder \<Rightarrow> (Operation \<Rightarrow> 's \<Rightarrow> WalkResult \<times> 's) \<Rightarrow> Operation \<Rightarrow> 's
    \<Rightarrow> WalkResult \<times> 's"
  and walkRegions :: "WalkOrder \<Rightarrow> (Operation \<Rightarrow> 's \<Rightarrow> WalkResult \<times> 's) \<Rightarrow> Region list \<Rightarrow> 's
    \<Rightarrow> WalkResult \<times> 's"
  and walkBlocks :: "WalkOrder \<Rightarrow> (Operation \<Rightarrow> 's \<Rightarrow> WalkResult \<times> 's) \<Rightarrow> Block list \<Rightarrow> 's
    \<Rightarrow> WalkResult \<times> 's"
  and walkOps :: "WalkOrder \<Rightarrow> (Operation \<Rightarrow> 's \<Rightarrow> WalkResult \<times> 's) \<Rightarrow> Operation list \<Rightarrow> 's
    \<Rightarrow> WalkResult \<times> 's"
where
  "walk PreOrder callback (Operation i n rs) s =
     (case callback (Operation i n rs) s of
        (skip, s') \<Rightarrow> (advance, s')
      | (interrupt, s') \<Rightarrow> (interrupt, s')
      | (advance, s') \<Rightarrow>
          (case walkRegions PreOrder callback rs s' of
             (interrupt, s'') \<Rightarrow> (interrupt, s'')
           | (_, s'') \<Rightarrow> (advance, s'')))"
| "walk PostOrder callback (Operation i n rs) s =
     (case walkRegions PostOrder callback rs s of
        (interrupt, s') \<Rightarrow> (interrupt, s')
      | (_, s') \<Rightarrow> callback (Operation i n rs) s')"
| "walkRegions order callback [] s = (advance, s)"
| "walkRegions order callback (Region bs # rs) s =
     (case walkBlocks order callback bs s of
        (interrupt, s') \<Rightarrow> (interrupt, s')
      | (_, s') \<Rightarrow> walkRegions order callback rs s')"
| "walkBlocks order callback [] s = (advance, s)"
| "walkBlocks order callback (Block b a ops # bs) s =
     (case walkOps order callback ops s of
        (interrupt, s') \<Rightarrow> (interrupt, s')
      | (_, s') \<Rightarrow> walkBlocks order callback bs s')"
| "walkOps order callback [] s = (advance, s)"
| "walkOps order callback (op # ops) s =
     (case walk order callback op s of
        (interrupt, s') \<Rightarrow> (interrupt, s')
      | (_, s') \<Rightarrow> walkOps order callback ops s')"

section \<open>ScopeOp::getSuccessorRegions\<close>

text \<open>
  Modelled from the spec: the declaration of \<^verbatim>\<open>ScopeOp\<close> (its results and regions, from
  which \<^verbatim>\<open>body()\<close> and \<^verbatim>\<open>getResults()\<close> are generated) is not in this file. The
  specification has it as a scoping construct with exactly one body region and a set
  of results forwarded on exit; the type keeps that shape, so \<^verbatim>\<open>body()\<close> is a selector.
\<close>

datatype ScopeOp = ScopeOp (scopeId: OpId) (scopeNumResults: nat) (body: Region)

definition getOperation :: "ScopeOp \<Rightarrow> Operation" where
  "getOperation op = Operation (scopeId op) (scopeNumResults op) [body op]"

text \<open>
  A region successor is either a region of the operation (\<open>Some region\<close>) or the parent
  operation (\<open>None\<close>), together with the values that receive the forwarded operands. Its
  two constructors: from a region pointer, with no inputs given, and from a range of
  results.
\<close>

datatype RegionSuccessor =
  RegionSuccessor (getSuccessor: "Region option") (getSuccessorInputs: "Value list")

definition RegionSuccessor_region :: "Region \<Rightarrow> RegionSuccessor" where
  "RegionSuccessor_region region = RegionSuccessor (Some region) []"

definition RegionSuccessor_results :: "OpResult list \<Rightarrow> RegionSuccessor" where
  "RegionSuccessor_results results = RegionSuccessor None (map Result results)"

text \<open>
  The hook returns nothing; it appends to the vector \<open>regions\<close> of its caller, which is
  returned here. \<open>index\<close> is the \<^verbatim>\<open>Optional<unsigned>\<close>, \<open>operands\<close> the constant
  attributes of the operands, of a type the hook never looks into.
\<close>

definition getSuccessorRegions ::
  "ScopeOp \<Rightarrow> nat option \<Rightarrow> 'attr list \<Rightarrow> RegionSuccessor list \<Rightarrow> RegionSuccessor list" where
  "getSuccessorRegions op index operands regions =
     (if index \<noteq> None
      then regions @ [RegionSuccessor_results (getResults (getOperation op))]
      else regions @ [RegionSuccessor_region (body op)])"

section \<open>verifySequenceOp\<close>

datatype LogicalResult = Success | Failure

definition failure :: "bool \<Rightarrow> LogicalResult" where
  "failure isFailure = (if isFailure then Failure else Success)"

text \<open>The inner loop of the callback: one note per use, in use-list order.\<close>

fun attachUseNotes :: "IRState \<Rightarrow> OpOperand list \<Rightarrow> Diagnostic \<Rightarrow> Diagnostic" where
  "attachUseNotes c [] diag = diag"
| "attachUseNotes c (use # uses) diag =
     attachUseNotes c uses
       (attachNote (getLoc c (getOwner use))
          (''used here as operand #'' @ toString (getOperandNumber use)) diag)"

text \<open>
  The outer loop of the callback over the results of \<open>child\<close>: a result with at most one
  use is passed over; the first other one is reported and interrupts the walk.
\<close>

fun checkResults :: "Operation \<Rightarrow> OpResult list \<Rightarrow> IRState \<Rightarrow> WalkResult \<times> IRState" where
  "checkResults child [] c = (advance, c)"
| "checkResults child (result # results) c =
     (if hasNItemsOrLess (getUses c result) 1 then checkResults child results c
      else (interrupt,
            report
              (attachUseNotes c (getUses c result)
                 (emitError c child
                    (''result #'' @ toString (getResultNumber result)
                       @ '' has more than one use'')))
              c))"

definition verifyCallback :: "Operation \<Rightarrow> IRState \<Rightarrow> WalkResult \<times> IRState" where
  "verifyCallback child c = checkResults child (getResults child) c"

text \<open>
  The verifier walks the sequence operation itself, \<open>op\<close>, with that callback, and fails
  when the walk was interrupted. \<open>order\<close> is the order in which the host walks.
\<close>

definition verifySequenceOp :: "WalkOrder \<Rightarrow> Operation \<Rightarrow> IRState \<Rightarrow> LogicalResult \<times> IRState" where
  "verifySequenceOp order op c =
     (case walk order verifyCallback op c of
        (result, c') \<Rightarrow> (failure (wasInterrupted result), c'))"

section \<open>Vocabulary of the properties\<close>

text \<open>
  The operations the walker visits, in the order in which it visits them when nothing
  interrupts it.
\<close>

fun visit :: "WalkOrder \<Rightarrow> Operation \<Rightarrow> Operation list"
  and visitRegions :: "WalkOrder \<Rightarrow> Region list \<Rightarrow> Operation list"
  and visitBlocks :: "WalkOrder \<Rightarrow> Block list \<Rightarrow> Operation list"
  and visitOps :: "WalkOrder \<Rightarrow> Operation list \<Rightarrow> Operation list"
where
  "visit PreOrder (Operation i n rs) = Operation i n rs # visitRegions PreOrder rs"
| "visit PostOrder (Operation i n rs) = visitRegions PostOrder rs @ [Operation i n rs]"
| "visitRegions order [] = []"
| "visitRegions order (Region bs # rs) = visitBlocks order bs @ visitRegions order rs"
| "visitBlocks order [] = []"
| "visitBlocks order (Block b a ops # bs) = visitOps order ops @ visitBlocks order bs"
| "visitOps order [] = []"
| "visitOps order (op # ops) = visit order op @ visitOps order ops"

text \<open>
  The walked subtree: the operation itself and everything nested in it; and the nested
  operations alone.
\<close>

definition subtreeOps :: "Operation \<Rightarrow> Operation list" where
  "subtreeOps op = visit PreOrder op"

definition nestedOps :: "Operation \<Rightarrow> Operation list" where
  "nestedOps op = visitRegions PreOrder (getRegions op)"

text \<open>The values that the operations of the walked subtree define.\<close>

definition definedValues :: "Operation \<Rightarrow> Value set" where
  "definedValues op = Result ` (\<Union>child \<in> set (subtreeOps op). set (getResults child))"

text \<open>Running a callback over a list, up to the first interrupt.\<close>

fun forEachUntil :: "('a \<Rightarrow> 's \<Rightarrow> WalkResult \<times> 's) \<Rightarrow> 'a list \<Rightarrow> 's \<Rightarrow> WalkResult \<times> 's" where
  "forEachUntil callback [] s = (advance, s)"
| "forEachUntil callback (x # xs) s =
     (case callback x s of
        (interrupt, s') \<Rightarrow> (interrupt, s')
      | (_, s') \<Rightarrow> forEachUntil callback xs s')"

definition multiUse :: "IRState \<Rightarrow> OpResult \<Rightarrow> bool" where
  "multiUse c result = (2 \<le> length (getUses c result))"

text \<open>
  The diagnostic of one violation: an error at the producing operation naming the result
  index; as notes, first what the host attaches to an error of that operation, then one
  note per use, at the consuming operation, naming the operand index.
\<close>

definition useNote :: "IRState \<Rightarrow> OpOperand \<Rightarrow> Diagnostic" where
  "useNote c use =
     Diagnostic Note (getLoc c (getOwner use))
       (''used here as operand #'' @ toString (getOperandNumber use)) []"

definition hostNotes :: "IRState \<Rightarrow> Operation \<Rightarrow> Diagnostic list" where
  "hostNotes c child =
     (if printOpOnDiagnostic c
      then [Diagnostic Note (getLoc c (getId child))
              (''see current operation: '' @ opText c (getId child)) []]
      else [])"

definition multiUseDiagnostic :: "IRState \<Rightarrow> Operation \<Rightarrow> OpResult \<Rightarrow> Diagnostic" where
  "multiUseDiagnostic c child result =
     Diagnostic Error (getLoc c (getId child))
       (''result #'' @ toString (getResultNumber result) @ '' has more than one use'')
       (hostNotes c child @ map (useNote c) (getUses c result))"

text \<open>
  All violations of a subtree, in traversal order, and for one operation in the order of
  its results.
\<close>

definition violationsOf :: "IRState \<Rightarrow> Operation \<Rightarrow> (Operation \<times> OpResult) list" where
  "violationsOf c child = map (Pair child) (filter (multiUse c) (getResults child))"

definition violations :: "WalkOrder \<Rightarrow> Operation \<Rightarrow> IRState \<Rightarrow> (Operation \<times> OpResult) list" where
  "violations order op c = concat (map (violationsOf c) (visit order op))"

subsection \<open>Example programs\<close>

text \<open>
  A sequence operation 0 whose body holds operations 1, 2 and 3; operation 2 has a
  region of its own holding operation 4. The location of operation \<open>i\<close> is \<open>op\<close>\<open>i\<close>.
\<close>

definition exampleLocations :: "OpId \<Rightarrow> Location" where
  "exampleLocations i = ''op'' @ toString i"

definition exampleTree :: Operation where
  "exampleTree =
     Operation 0 0 [Region [Block 0 1
       [Operation 1 1 [], Operation 2 1 [Region [Block 1 0 [Operation 4 2 []]]],
        Operation 3 0 []]]]"

definition exampleOpText :: "OpId \<Rightarrow> string" where
  "exampleOpText i = ''test.op'' @ toString i @ ''()''"

text \<open>The example states have the host's default: operations are printed on diagnostics.\<close>

definition exampleState :: "(Value \<times> OpOperand list) list \<Rightarrow> IRState" where
  "exampleState uses =
     \<lparr>useLists = (\<lambda>v. case map_of uses v of None \<Rightarrow> [] | Some us \<Rightarrow> us),
      locations = exampleLocations, diagnostics = [],
      printOpOnDiagnostic = True, opText = exampleOpText\<rparr>"

definition singleUseState :: IRState where
  "singleUseState = exampleState [(Result (OpResult 1 0), [OpOperand 2 0])]"

definition doubleUseState :: IRState where
  "doubleUseState = exampleState [(Result (OpResult 1 0), [OpOperand 2 0, OpOperand 3 1])]"

text \<open>The same program in a context that does not print operations on diagnostics.\<close>

definition doubleUseQuietState :: IRState where
  "doubleUseQuietState = doubleUseState\<lparr>printOpOnDiagnostic := False\<rparr>"

definition twoViolationsState :: IRState where
  "twoViolationsState =
     exampleState [(Result (OpResult 1 0), [OpOperand 2 0, OpOperand 3 1]),
                   (Result (OpResult 4 1), [OpOperand 3 0, OpOperand 3 2])]"

definition outsideUseState :: IRState where
  "outsideUseState = exampleState [(Result (OpResult 1 0), [OpOperand 2 0, OpOperand 9 0])]"

definition outerValuesState :: IRState where
  "outerValuesState =
     exampleState [(BlockArgument 0 0, [OpOperand 1 0, OpOperand 2 0, OpOperand 3 0]),
                   (Result (OpResult 9 0), [OpOperand 4 0, OpOperand 4 1]),
                   (Result (OpResult 1 0), [OpOperand 2 1])]"

text \<open>A sequence operation with two results of its own, the second used twice.\<close>

definition rootResultTree :: Operation where
  "rootResultTree = Operation 0 2 [Region [Block 0 0 [Operation 1 1 [], Operation 2 0 []]]]"

definition rootUseState :: IRState where
  "rootUseState =
     exampleState [(Result (OpResult 1 0), [OpOperand 2 0]),
                   (Result (OpResult 0 1), [OpOperand 7 0, OpOperand 8 3])]"

section \<open>The walker as a loop over the visit order\<close>

lemma forEachUntil_append:
  "forEachUntil cb (xs @ ys) s =
     (case forEachUntil cb xs s of
        (interrupt, s') \<Rightarrow> (interrupt, s')
      | (_, s') \<Rightarrow> forEachUntil cb ys s')"
  by (induction xs arbitrary: s) (auto split: prod.splits WalkResult.splits)

lemma forEachUntil_no_skip:
  "(\<And>x s s'. cb x s \<noteq> (skip, s')) \<Longrightarrow> forEachUntil cb xs s \<noteq> (skip, s'')"
proof (induction xs arbitrary: s)
  case Nil
  show ?case by simp
next
  case (Cons x xs)
  then show ?case by (auto split: prod.splits WalkResult.splits)
qed

lemma walk_forEachUntil:
  assumes ns: "\<And>x s s'. cb x s \<noteq> (skip, s')"
  shows "walk order cb op s = forEachUntil cb (visit order op) s"
    and "walkRegions order cb rs s = forEachUntil cb (visitRegions order rs) s"
    and "walkBlocks order cb bs s = forEachUntil cb (visitBlocks order bs) s"
    and "walkOps order cb ops s = forEachUntil cb (visitOps order ops) s"
proof (induction order op and order rs and order bs and order ops arbitrary: s and s and s and s
    rule: visit_visitRegions_visitBlocks_visitOps.induct)
  case (1 i n rs)
  have "forEachUntil cb (visitRegions PreOrder rs) s' \<noteq> (skip, s'')" for s' s''
    using ns by (rule forEachUntil_no_skip)
  then show ?case using 1 ns
    by (auto split: prod.splits WalkResult.splits)
next
  case (2 i n rs)
  have "forEachUntil cb (visitRegions PostOrder rs) s \<noteq> (skip, s'')" for s''
    using ns by (rule forEachUntil_no_skip)
  then show ?case using 2 ns
    by (auto simp: forEachUntil_append split: prod.splits WalkResult.splits)
qed (auto simp: forEachUntil_append split: prod.splits WalkResult.splits)

lemma set_visit:
  "set (visit order op) = set (visit PreOrder op)"
  "set (visitRegions order rs) = set (visitRegions PreOrder rs)"
  "set (visitBlocks order bs) = set (visitBlocks PreOrder bs)"
  "set (visitOps order ops) = set (visitOps PreOrder ops)"
proof (induction order op and order rs and order bs and order ops
    rule: visit_visitRegions_visitBlocks_visitOps.induct)
qed auto

lemma set_visit_subtreeOps: "set (visit order op) = set (subtreeOps op)"
  by (simp add: subtreeOps_def set_visit(1) [of order])

section \<open>What the verifier computes\<close>

lemma attachUseNotes_eq:
  "attachUseNotes c uses diag =
     Diagnostic (getSeverity diag) (getLocation diag) (str diag)
       (getNotes diag @ map (useNote c) uses)"
  by (induction uses arbitrary: diag) (simp_all add: attachNote_def useNote_def)

lemma reported_diagnostic:
  "attachUseNotes c (getUses c result)
     (emitError c child
        (''result #'' @ toString (getResultNumber result) @ '' has more than one use''))
   = multiUseDiagnostic c child result"
  by (simp add: attachUseNotes_eq emitError_def attachNote_def multiUseDiagnostic_def
      hostNotes_def)

lemma report_eq: "report diag c = c\<lparr>diagnostics := diagnostics c @ [diag]\<rparr>"
  by (simp add: report_def)

lemma checkResults_eq:
  "checkResults child results c =
     (case filter (multiUse c) results of
        [] \<Rightarrow> (advance, c)
      | result # _ \<Rightarrow> (interrupt, report (multiUseDiagnostic c child result) c))"
proof (induction results)
  case Nil
  show ?case by simp
next
  case (Cons result results)
  have "hasNItemsOrLess (getUses c result) 1 \<longleftrightarrow> \<not> multiUse c result"
    by (auto simp: hasNItemsOrLess_def multiUse_def)
  then show ?case using Cons
    by (simp add: reported_diagnostic del: append.simps)
qed

lemma verifyCallback_eq:
  "verifyCallback child c =
     (case violationsOf c child of
        [] \<Rightarrow> (advance, c)
      | (child', result) # _ \<Rightarrow> (interrupt, report (multiUseDiagnostic c child' result) c))"
  by (simp add: verifyCallback_def checkResults_eq violationsOf_def split: list.splits)

lemma verifyCallback_no_skip: "verifyCallback child c \<noteq> (skip, c')"
  by (simp add: verifyCallback_eq split: list.splits prod.splits)

lemma forEachUntil_verifyCallback:
  "forEachUntil verifyCallback children c =
     (case concat (map (violationsOf c) children) of
        [] \<Rightarrow> (advance, c)
      | (child, result) # _ \<Rightarrow> (interrupt, report (multiUseDiagnostic c child result) c))"
proof (induction children)
  case Nil
  show ?case by simp
next
  case (Cons child children)
  then show ?case
    by (cases "violationsOf c child") (simp_all add: verifyCallback_eq split: prod.splits)
qed

lemma walk_verifyCallback_eq:
  "walk order verifyCallback op c =
     (case violations order op c of
        [] \<Rightarrow> (advance, c)
      | (child, result) # _ \<Rightarrow> (interrupt, report (multiUseDiagnostic c child result) c))"
  unfolding violations_def
  by (simp only: walk_forEachUntil(1) [OF verifyCallback_no_skip] forEachUntil_verifyCallback)

lemma verifySequenceOp_eq:
  "verifySequenceOp order op c =
     (case violations order op c of
        [] \<Rightarrow> (Success, c)
      | (child, result) # _ \<Rightarrow> (Failure, report (multiUseDiagnostic c child result) c))"
  unfolding verifySequenceOp_def walk_verifyCallback_eq
  by (cases "violations order op c")
    (simp_all add: failure_def wasInterrupted_def split: prod.splits)

lemma set_violations:
  "set (violations order op c) =
     {(child, result). child \<in> set (subtreeOps op) \<and> result \<in> set (getResults child)
        \<and> 2 \<le> length (getUses c result)}"
  by (auto simp: violations_def violationsOf_def multiUse_def set_visit_subtreeOps)

lemma violations_Nil_iff:
  "violations order op c = [] \<longleftrightarrow>
     (\<forall>child \<in> set (subtreeOps op). \<forall>result \<in> set (getResults child).
        length (getUses c result) \<le> 1)"
proof -
  have "violations order op c = [] \<longleftrightarrow> set (violations order op c) = {}" by simp
  also have "\<dots> \<longleftrightarrow> (\<forall>child \<in> set (subtreeOps op). \<forall>result \<in> set (getResults child).
        length (getUses c result) \<le> 1)"
    unfolding set_violations by (fastforce simp: not_le)
  finally show ?thesis .
qed

lemma violations_first:
  assumes "visit order op = before @ child # after"
    and "getResults child = earlier @ result # later"
    and "\<forall>child' \<in> set before. \<forall>r \<in> set (getResults child'). length (getUses c r) \<le> 1"
    and "\<forall>r \<in> set earlier. length (getUses c r) \<le> 1"
    and "2 \<le> length (getUses c result)"
  shows "\<exists>rest. violations order op c = (child, result) # rest"
proof -
  have "\<not> multiUse c r" if "r \<in> set earlier" for r
    using assms(4) that by (fastforce simp: multiUse_def)
  then have "filter (multiUse c) earlier = []"
    by (simp add: filter_empty_conv)
  then have 1: "violationsOf c child =
      (child, result) # map (Pair child) (filter (multiUse c) later)"
    using assms(2,5) by (simp add: violationsOf_def multiUse_def)
  have "\<not> multiUse c r" if "child' \<in> set before" "r \<in> set (getResults child')" for child' r
    using assms(3) that by (fastforce simp: multiUse_def)
  then have "violationsOf c child' = []" if "child' \<in> set before" for child'
    using that by (simp add: violationsOf_def filter_empty_conv)
  then have 2: "concat (map (violationsOf c) before) = []"
    by simp
  show ?thesis
    by (simp add: violations_def assms(1) 1 2)
qed

lemma violations_root:
  assumes "\<forall>child \<in> set (nestedOps op). \<forall>r \<in> set (getResults child).
             length (getUses c r) \<le> 1"
  shows "violations order op c = violationsOf c op"
proof -
  have nm: "\<not> multiUse c r" if "child \<in> set (nestedOps op)" "r \<in> set (getResults child)"
    for child r
    using assms that by (fastforce simp: multiUse_def)
  have nested: "concat (map (violationsOf c) (visitRegions order' (getRegions op))) = []"
    for order'
  proof -
    have "set (visitRegions order' (getRegions op)) = set (nestedOps op)"
      by (simp add: nestedOps_def set_visit(2) [of order'])
    then show ?thesis
      using nm by (simp add: violationsOf_def filter_empty_conv)
  qed
  show ?thesis
  proof (cases op)
    case (Operation i n rs)
    then show ?thesis
      using nested [of PreOrder] nested [of PostOrder]
      by (cases order) (simp_all add: violations_def)
  qed
qed

lemma violations_frame:
  assumes "useLists c' = useLists c"
  shows "violations order op c' = violations order op c"
proof -
  have "multiUse c' = multiUse c"
    using assms by (intro ext) (simp add: multiUse_def getUses_def)
  then have "violationsOf c' = violationsOf c"
    by (intro ext) (simp add: violationsOf_def)
  then show ?thesis by (simp add: violations_def)
qed

subsection \<open>Evaluating the examples\<close>

lemma toString_digit: "n < 10 \<Longrightarrow> toString n = [''0123456789'' ! n]"
  by (simp add: toString.simps)

lemmas example_simps =
  exampleState_def exampleTree_def exampleLocations_def exampleOpText_def subtreeOps_def
  nestedOps_def getResults_def getUses_def getLoc_def multiUseDiagnostic_def hostNotes_def
  useNote_def upt_conv_Cons
  toString_digit

lemmas verifier_simps =
  verifySequenceOp_def verifyCallback_def hasNItemsOrLess_def report_def emitError_def
  attachNote_def wasInterrupted_def failure_def

text \<open>
  The scenarios of the specification, run through the code: a value consumed once
  passes; a value consumed as operand 0 of one operation and as operand 1 of another is
  reported with both uses (in a context that does not print operations on diagnostics
  these are all the notes); of two violations only the first is reported.
\<close>

lemma scenario_single_use:
  "verifySequenceOp PostOrder exampleTree singleUseState = (Success, singleUseState)"
  by (simp add: singleUseState_def verifier_simps example_simps)

lemma scenario_double_use:
  "verifySequenceOp PostOrder exampleTree doubleUseQuietState =
     (Failure, doubleUseQuietState\<lparr>diagnostics :=
        [Diagnostic Error ''op1'' ''result #0 has more than one use''
           [Diagnostic Note ''op2'' ''used here as operand #0'' [],
            Diagnostic Note ''op3'' ''used here as operand #1'' []]]\<rparr>)"
  by (simp add: doubleUseQuietState_def doubleUseState_def verifier_simps example_simps)

lemma scenario_two_violations:
  "verifySequenceOp PreOrder exampleTree twoViolationsState =
     (Failure, twoViolationsState\<lparr>diagnostics :=
        [Diagnostic Error ''op1'' ''result #0 has more than one use''
           [Diagnostic Note ''op1'' ''see current operation: test.op1()'' [],
            Diagnostic Note ''op2'' ''used here as operand #0'' [],
            Diagnostic Note ''op3'' ''used here as operand #1'' []]]\<rparr>)"
  by (simp add: twoViolationsState_def verifier_simps example_simps)

section \<open>Properties of the verifier\<close>

text \<open>
  C1. If no result of an operation of the walked subtree has more than one use, the
  verifier returns success (and reports nothing), in either walk order.
\<close>

theorem verifySequenceOp_single_use_success:
  assumes "\<forall>child \<in> set (subtreeOps op). \<forall>result \<in> set (getResults child).
             length (getUses c result) \<le> 1"
  shows "verifySequenceOp order op c = (Success, c)"
proof -
  have "violations order op c = []" using assms by (simp only: violations_Nil_iff)
  then show ?thesis by (simp add: verifySequenceOp_eq)
qed

theorem verifySequenceOp_single_use_success_witness:
  "verifySequenceOp PostOrder exampleTree singleUseState = (Success, singleUseState)"
  by (rule verifySequenceOp_single_use_success)
    (simp add: singleUseState_def example_simps)

text \<open>
  C2 as stated asks for exactly one note per use, each at a consuming operation. In a
  context with the host's default setting the error that \<^verbatim>\<open>child->emitError()\<close> starts
  already carries the host's own note at the producing operation, so the reported
  diagnostic of a result with two uses has three notes, and the first of them is neither
  at a consuming operation nor of the form \<open>used here as operand #M\<close>.
\<close>

theorem verifySequenceOp_note_per_use_counterexample:
  "getUses doubleUseState (OpResult 1 0) = [OpOperand 2 0, OpOperand 3 1] \<and>
   verifySequenceOp PostOrder exampleTree doubleUseState =
     (Failure, doubleUseState\<lparr>diagnostics :=
        [Diagnostic Error ''op1'' ''result #0 has more than one use''
           [Diagnostic Note ''op1'' ''see current operation: test.op1()'' [],
            Diagnostic Note ''op2'' ''used here as operand #0'' [],
            Diagnostic Note ''op3'' ''used here as operand #1'' []]]\<rparr>) \<and>
   diagnostics (snd (verifySequenceOp PostOrder exampleTree doubleUseState)) \<noteq>
     [Diagnostic Error ''op1'' ''result #0 has more than one use''
        [Diagnostic Note ''op2'' ''used here as operand #0'' [],
         Diagnostic Note ''op3'' ''used here as operand #1'' []]]"
  by (simp add: doubleUseState_def verifier_simps example_simps)

text \<open>
  C2, amended. If some result of an operation of the walked subtree has two or more
  uses, the verifier returns failure and reports exactly one diagnostic. It is an error
  at the location of an operation of the subtree that produces a result with two or more
  uses, and its message is \<open>result #N has more than one use\<close> with \<open>N\<close> the number of that
  result. Its notes are: first, when the context prints operations on diagnostics, the
  host's note \<open>see current operation: ...\<close> at the producing operation; then, use for
  use in the order of the use list of that result (the first use included), exactly one
  note at the location of the owner of the use with the message
  \<open>used here as operand #M\<close>, \<open>M\<close> the operand number of the use.
\<close>

theorem verifySequenceOp_multi_use_failure:
  assumes "child0 \<in> set (subtreeOps op)"
    and "result0 \<in> set (getResults child0)"
    and "2 \<le> length (getUses c result0)"
  shows "\<exists>child result.
      child \<in> set (subtreeOps op) \<and> result \<in> set (getResults child) \<and>
      2 \<le> length (getUses c result) \<and>
      verifySequenceOp order op c =
        (Failure,
         c\<lparr>diagnostics := diagnostics c @
           [Diagnostic Error (getLoc c (getId child))
              (''result #'' @ toString (getResultNumber result) @ '' has more than one use'')
              ((if printOpOnDiagnostic c
                then [Diagnostic Note (getLoc c (getId child))
                        (''see current operation: '' @ opText c (getId child)) []]
                else []) @
               map (\<lambda>use. Diagnostic Note (getLoc c (getOwner use))
                      (''used here as operand #'' @ toString (getOperandNumber use)) [])
                 (getUses c result))]\<rparr>)"
proof -
  have "(child0, result0) \<in> set (violations order op c)"
    using assms by (simp add: set_violations)
  then obtain child result rest where v: "violations order op c = (child, result) # rest"
    by (cases "violations order op c") auto
  then have "(child, result) \<in> set (violations order op c)" by simp
  then have "child \<in> set (subtreeOps op)" "result \<in> set (getResults child)"
    "2 \<le> length (getUses c result)"
    by (simp_all add: set_violations)
  moreover have "verifySequenceOp order op c =
      (Failure, c\<lparr>diagnostics := diagnostics c @ [multiUseDiagnostic c child result]\<rparr>)"
    by (simp add: verifySequenceOp_eq v report_eq)
  ultimately show ?thesis
    unfolding multiUseDiagnostic_def hostNotes_def useNote_def by blast
qed

theorem verifySequenceOp_multi_use_failure_witness:
  "\<exists>child result.
      child \<in> set (subtreeOps exampleTree) \<and> result \<in> set (getResults child) \<and>
      2 \<le> length (getUses doubleUseState result) \<and>
      verifySequenceOp PostOrder exampleTree doubleUseState =
        (Failure,
         doubleUseState\<lparr>diagnostics := diagnostics doubleUseState @
           [Diagnostic Error (getLoc doubleUseState (getId child))
              (''result #'' @ toString (getResultNumber result) @ '' has more than one use'')
              ((if printOpOnDiagnostic doubleUseState
                then [Diagnostic Note (getLoc doubleUseState (getId child))
                        (''see current operation: '' @ opText doubleUseState (getId child)) []]
                else []) @
               map (\<lambda>use. Diagnostic Note (getLoc doubleUseState (getOwner use))
                      (''used here as operand #'' @ toString (getOperandNumber use)) [])
                 (getUses doubleUseState result))]\<rparr>)"
  by (rule verifySequenceOp_multi_use_failure [where ?child0.0 = "Operation 1 1 []"
        and ?result0.0 = "OpResult 1 0"])
    (simp_all add: doubleUseState_def example_simps)

text \<open>
  C3. Let \<open>child\<close> be the first operation in traversal order with an offending result,
  and \<open>result\<close> its first offending result. Then the walk is interrupted there and the
  verifier fails with exactly one new diagnostic, the one of \<open>result\<close>, whatever the
  results after it and the operations after \<open>child\<close> look like: a later violation is
  not reported.
\<close>

theorem verifySequenceOp_short_circuit:
  assumes "visit order op = before @ child # after"
    and "getResults child = earlier @ result # later"
    and "\<forall>child' \<in> set before. \<forall>r \<in> set (getResults child'). length (getUses c r) \<le> 1"
    and "\<forall>r \<in> set earlier. length (getUses c r) \<le> 1"
    and "2 \<le> length (getUses c result)"
  shows "walk order verifyCallback op c =
      (interrupt, c\<lparr>diagnostics := diagnostics c @ [multiUseDiagnostic c child result]\<rparr>) \<and>
    verifySequenceOp order op c =
      (Failure, c\<lparr>diagnostics := diagnostics c @ [multiUseDiagnostic c child result]\<rparr>)"
proof -
  obtain rest where "violations order op c = (child, result) # rest"
    using violations_first [OF assms] by blast
  then show ?thesis by (simp add: verifySequenceOp_eq walk_verifyCallback_eq report_eq)
qed

theorem verifySequenceOp_short_circuit_witness:
  "(walk PostOrder verifyCallback exampleTree twoViolationsState =
      (interrupt, twoViolationsState\<lparr>diagnostics := diagnostics twoViolationsState @
         [multiUseDiagnostic twoViolationsState (Operation 1 1 []) (OpResult 1 0)]\<rparr>) \<and>
    verifySequenceOp PostOrder exampleTree twoViolationsState =
      (Failure, twoViolationsState\<lparr>diagnostics := diagnostics twoViolationsState @
         [multiUseDiagnostic twoViolationsState (Operation 1 1 []) (OpResult 1 0)]\<rparr>))
   \<and> 2 \<le> length (getUses twoViolationsState (OpResult 4 1))
   \<and> Operation 4 2 [] \<in> set (subtreeOps exampleTree)
   \<and> OpResult 4 1 \<in> set (getResults (Operation 4 2 []))"
  using verifySequenceOp_short_circuit [of PostOrder exampleTree "[]" "Operation 1 1 []"
      "[Operation 4 2 [], Operation 2 1 [Region [Block 1 0 [Operation 4 2 []]]],
        Operation 3 0 [], exampleTree]" "[]" "OpResult 1 0" "[]" twoViolationsState]
  by (simp add: twoViolationsState_def example_simps)

text \<open>
  C6. The verifier leaves the use lists and the locations of the program, and the
  settings of the context, as they were (it only adds to the reported diagnostics), and
  run again on the state it leaves it returns the same result.
\<close>

theorem verifySequenceOp_preserves_ir:
  "useLists (snd (verifySequenceOp order op c)) = useLists c \<and>
   locations (snd (verifySequenceOp order op c)) = locations c \<and>
   printOpOnDiagnostic (snd (verifySequenceOp order op c)) = printOpOnDiagnostic c \<and>
   opText (snd (verifySequenceOp order op c)) = opText c \<and>
   fst (verifySequenceOp order op (snd (verifySequenceOp order op c))) =
     fst (verifySequenceOp order op c)"
proof (cases "violations order op c")
  case Nil
  then show ?thesis by (simp add: verifySequenceOp_eq)
next
  case (Cons v vs)
  obtain child result where v: "v = (child, result)" by (cases v)
  have 1: "verifySequenceOp order op c =
      (Failure, report (multiUseDiagnostic c child result) c)"
    using Cons v by (simp add: verifySequenceOp_eq)
  have "violations order op (report (multiUseDiagnostic c child result) c) = v # vs"
    using Cons violations_frame [of "report (multiUseDiagnostic c child result) c" c order op]
    by (simp add: report_def)
  then have 2: "fst (verifySequenceOp order op (report (multiUseDiagnostic c child result) c))
      = Failure"
    using v by (simp add: verifySequenceOp_eq)
  show ?thesis
    unfolding 1 using 2 by (simp add: report_def)
qed

text \<open>
  C7. Every use in the use list of a result counts, whoever owns it: a result of an
  operation of the walked subtree with a use owned by an operation of the subtree and a
  use owned by an operation outside it makes the verifier fail.
\<close>

theorem verifySequenceOp_counts_outside_uses:
  assumes "child \<in> set (subtreeOps op)"
    and "result \<in> set (getResults child)"
    and "inside \<in> set (getUses c result)"
    and "outside \<in> set (getUses c result)"
    and "getOwner inside \<in> getId ` set (subtreeOps op)"
    and "getOwner outside \<notin> getId ` set (subtreeOps op)"
  shows "fst (verifySequenceOp order op c) = Failure"
proof -
  have "inside \<noteq> outside" using assms(5,6) by auto
  then have "card {inside, outside} = 2" by simp
  moreover have "card {inside, outside} \<le> card (set (getUses c result))"
    using assms(3,4) by (intro card_mono) auto
  moreover have "card (set (getUses c result)) \<le> length (getUses c result)"
    by (rule card_length)
  ultimately have "2 \<le> length (getUses c result)" by linarith
  then have "(child, result) \<in> set (violations order op c)"
    using assms(1,2) by (simp add: set_violations)
  then show ?thesis
    by (cases "violations order op c") (auto simp: verifySequenceOp_eq)
qed

theorem verifySequenceOp_counts_outside_uses_witness:
  "fst (verifySequenceOp PostOrder exampleTree outsideUseState) = Failure
   \<and> getUses outsideUseState (OpResult 1 0) = [OpOperand 2 0, OpOperand 9 0]
   \<and> 2 \<in> getId ` set (subtreeOps exampleTree)
   \<and> 9 \<notin> getId ` set (subtreeOps exampleTree)"
  using verifySequenceOp_counts_outside_uses [of "Operation 1 1 []" exampleTree "OpResult 1 0"
      "OpOperand 2 0" outsideUseState "OpOperand 9 0" PostOrder]
  by (simp add: outsideUseState_def example_simps)

text \<open>
  C8. The walk includes the operation it starts from: if a result of the sequence
  operation itself has two or more uses, the verifier fails even when every result of
  every nested operation has at most one use, and the diagnostic is the one of a result
  of the sequence operation.
\<close>

theorem verifySequenceOp_checks_root_results:
  assumes "result0 \<in> set (getResults op)"
    and "2 \<le> length (getUses c result0)"
    and "\<forall>child \<in> set (nestedOps op). \<forall>r \<in> set (getResults child).
           length (getUses c r) \<le> 1"
  shows "\<exists>result. result \<in> set (getResults op) \<and> 2 \<le> length (getUses c result) \<and>
      verifySequenceOp order op c =
        (Failure, c\<lparr>diagnostics := diagnostics c @ [multiUseDiagnostic c op result]\<rparr>)"
proof -
  have v: "violations order op c = violationsOf c op"
    using assms(3) by (rule violations_root)
  have "(op, result0) \<in> set (violationsOf c op)"
    using assms(1,2) by (simp add: violationsOf_def multiUse_def)
  then obtain child result rest where h: "violationsOf c op = (child, result) # rest"
    by (cases "violationsOf c op") auto
  then have "(child, result) \<in> set (violationsOf c op)" by simp
  then have "child = op" "result \<in> set (getResults op)" "2 \<le> length (getUses c result)"
    by (auto simp: violationsOf_def multiUse_def)
  then show ?thesis
    using h v by (auto simp: verifySequenceOp_eq report_eq)
qed

theorem verifySequenceOp_checks_root_results_witness:
  "\<exists>result. result \<in> set (getResults rootResultTree) \<and>
      2 \<le> length (getUses rootUseState result) \<and>
      verifySequenceOp PostOrder rootResultTree rootUseState =
        (Failure, rootUseState\<lparr>diagnostics := diagnostics rootUseState @
           [multiUseDiagnostic rootUseState rootResultTree result]\<rparr>)"
  by (rule verifySequenceOp_checks_root_results [where ?result0.0 = "OpResult 0 1"])
    (simp_all add: rootResultTree_def rootUseState_def example_simps)

text \<open>
  C10. Only results of visited operations are looked at: if every value of the program
  with two or more uses is defined outside the walked subtree (a block argument, a
  result of an operation elsewhere), the verifier returns success, however often those
  values are used.
\<close>

theorem verifySequenceOp_ignores_outside_values:
  assumes "\<forall>v. 2 \<le> length (useLists c v) \<longrightarrow> v \<notin> definedValues op"
  shows "verifySequenceOp order op c = (Success, c)"
proof -
  have "length (getUses c result) \<le> 1"
    if "child \<in> set (subtreeOps op)" "result \<in> set (getResults child)" for child result
  proof -
    have "Result result \<in> definedValues op"
      using that by (auto simp: definedValues_def)
    then have "\<not> 2 \<le> length (useLists c (Result result))"
      using assms by blast
    then show ?thesis by (simp add: getUses_def)
  qed
  then have "violations order op c = []"
    by (simp add: violations_Nil_iff)
  then show ?thesis by (simp add: verifySequenceOp_eq)
qed

theorem verifySequenceOp_ignores_outside_values_witness:
  "verifySequenceOp PostOrder exampleTree outerValuesState = (Success, outerValuesState)
   \<and> length (useLists outerValuesState (BlockArgument 0 0)) = 3
   \<and> length (useLists outerValuesState (Result (OpResult 9 0))) = 2"
  using verifySequenceOp_ignores_outside_values [of outerValuesState exampleTree PostOrder]
  by (simp add: outerValuesState_def definedValues_def example_simps image_iff)

section \<open>Properties of the region-successor hook\<close>

text \<open>
  C4. The hook appends exactly one successor to the vector it is given, so a caller that
  passes an empty vector gets a list of one entry: without a predecessor index the
  successor is the body region, with any index it is the parent with the results of the
  operation.
\<close>

theorem getSuccessorRegions_single_successor:
  "getSuccessorRegions op None operands regions =
     regions @ [RegionSuccessor (Some (body op)) []] \<and>
   getSuccessorRegions op (Some i) operands regions =
     regions @ [RegionSuccessor None (map Result (getResults (getOperation op)))] \<and>
   length (getSuccessorRegions op index operands []) = 1"
  by (simp add: getSuccessorRegions_def RegionSuccessor_region_def RegionSuccessor_results_def)

text \<open>
  C5. The hook has no failing branch: for every index, present or absent, every list of
  operands and every vector, it returns the vector with one successor appended.
\<close>

theorem getSuccessorRegions_total:
  "\<exists>successor. getSuccessorRegions op index operands regions = regions @ [successor]"
  by (simp add: getSuccessorRegions_def)

text \<open>
  C9. What the hook appends depends only on whether a predecessor index is present:
  two calls on the same operation, starting from the same vector, that agree on the
  presence of the index give the same vector, whatever the value of the index and
  whatever the operands are.
\<close>

theorem getSuccessorRegions_index_presence_only:
  "(index = None \<longleftrightarrow> index' = None) \<Longrightarrow>
     getSuccessorRegions op index operands regions =
     getSuccessorRegions op index' operands' regions"
  by (auto simp: getSuccessorRegions_def)

theorem getSuccessorRegions_index_presence_only_witness:
  "getSuccessorRegions (ScopeOp 1 2 (Region [])) (Some 0) [True] [] =
   getSuccessorRegions (ScopeOp 1 2 (Region [])) (Some 7) [False, True] []"
  using getSuccessorRegions_index_presence_only
    [of "Some 0" "Some 7" "ScopeOp 1 2 (Region [])" "[True]" "[]" "[False, True]"]
  by simp

end
